theory Spec2Isabelle
  imports Main "HOL-Library.Word"
begin

section \<open>Go values\<close>

text \<open>
  A Go \<open>error\<close> value. \<open>Errorf msg err\<close> is \<open>fmt.Errorf("msg: %w", err)\<close>; the other
  constructors are the errors the database handle reports: a failure of the connection or
  the driver (by an opaque code), PostgreSQL's answers to a statement it refuses, and
  database/sql's refusal to scan SQL NULL into a Go string or integer.
\<close>

datatype error =
    DriverError nat
  | SyntaxError
  | UndefinedTable
  | DuplicateTable
  | ScanNull
  | Errorf string error

text \<open>
  How a call ends: it returns, it panics, or it blocks on a channel operation that nothing
  in the state it was called in can complete.
\<close>

datatype 'a outcome = Ret 'a | Panic | Block

section \<open>Events\<close>

text \<open>
  Modelled from the spec: the declarations of \<open>Event\<close>, \<open>EventType\<close>, \<open>EventPut\<close> and
  \<open>EventDelete\<close> are not in the source files. db.go and main.go use the fields
  \<open>Sequence\<close>, \<open>EventType\<close>, \<open>Key\<close> and \<open>Value\<close> and switch on the two constants; the spec
  (sections 3 and 6) gives the sequence as a 64-bit unsigned integer and the event type as
  a small integer. \<open>EventOther\<close> stands for every value of the integer type that is neither
  constant. Which of the three the zero value of the type is, is not fixed here: the one
  function that reads a zero \<open>Event\<close> takes it as a parameter.
\<close>

datatype EventType = EventDelete | EventPut | EventOther

record Event =
  Sequence :: "64 word"
  EventType :: EventType
  Key :: string
  Value :: string

definition zeroEvent :: "EventType \<Rightarrow> Event" where
  "zeroEvent zt = \<lparr>Sequence = 0, EventType = zt, Key = [], Value = []\<rparr>"

section \<open>The database behind the *sql.DB handle\<close>

text \<open>
  The PostgreSQL server and the driver are the environment of db.go. The model keeps what
  the code can observe of them:
  \<^item> \<open>relation\<close>: the rows of \<open>public.transactions\<close>, \<open>None\<close> while the relation does not
    exist. The columns \<open>event_type\<close>, \<open>key\<close> and \<open>value\<close> carry no NOT NULL constraint, so a
    row may hold SQL NULL (\<open>None\<close>) in them;
  \<^item> \<open>serial\<close>: the last value of the BIGSERIAL sequence behind the column \<open>sequence\<close>
    (a bigint; the sequence is taken not to reach its upper limit of \<open>2^63 - 1\<close>);
  \<^item> \<open>faults\<close>: what the environment does to the successive calls on the handle
    (\<open>sql.Open\<close>, \<open>Ping\<close>, \<open>Query\<close>, \<open>Exec\<close>, \<open>rows.Next\<close>), one entry per call in call order:
    \<open>None\<close> lets the call through, \<open>Some err\<close> makes it fail with \<open>err\<close>. Calls past the end
    of the list go through;
  \<^item> \<open>history\<close>: the calls made so far, oldest first.
\<close>

record Row =
  col_sequence :: nat
  col_event_type :: "EventType option"
  col_key :: "string option"
  col_value :: "string option"

datatype sql_call =
    SqlOpen string
  | SqlPing
  | QueryToRegclass
  | ExecCreateTable string
  | QuerySelect
  | ExecInsert EventType string string

record PgDB =
  faults :: "error option list"
  relation :: "Row list option"
  serial :: nat
  history :: "sql_call list"

definition TABLE :: string where
  "TABLE = ''transactions''"

definition nextFault :: "PgDB \<Rightarrow> error option \<times> PgDB" where
  "nextFault d = (case faults d of [] \<Rightarrow> (None, d) | f # fs \<Rightarrow> (f, d\<lparr>faults := fs\<rparr>))"

definition called :: "sql_call \<Rightarrow> PgDB \<Rightarrow> PgDB" where
  "called c d = d\<lparr>history := history d @ [c]\<rparr>"

definition sqlOpen :: "string \<Rightarrow> PgDB \<Rightarrow> error option \<times> PgDB" where
  "sqlOpen connStr d = (case nextFault d of (f, d') \<Rightarrow> (f, called (SqlOpen connStr) d'))"

definition dbPing :: "PgDB \<Rightarrow> error option \<times> PgDB" where
  "dbPing d = (case nextFault d of (f, d') \<Rightarrow> (f, called SqlPing d'))"

text \<open>
  \<open>SELECT to_regclass('public.transactions');\<close> answers one row with one column: the
  relation's name when it exists, SQL NULL when it does not.
\<close>

definition queryToRegclass :: "PgDB \<Rightarrow> (error + string option list) \<times> PgDB" where
  "queryToRegclass d =
     (case nextFault d of
        (Some err, d') \<Rightarrow> (Inl err, called QueryToRegclass d')
      | (None, d') \<Rightarrow>
          (Inr [if relation d' = None then None else Some TABLE], called QueryToRegclass d'))"

text \<open>
  PostgreSQL's grammar for \<open>CREATE TABLE name ( ... )\<close>: the parenthesised list is empty or
  holds column definitions separated by commas, so no piece between two commas, or between
  a comma and a parenthesis, is blank. \<open>columnList\<close> is the text between the first opening
  and the last closing parenthesis of the statement.
\<close>

definition columnList :: "string \<Rightarrow> string" where
  "columnList s =
     rev (tl (dropWhile (\<lambda>c. c \<noteq> CHR '')'') (rev (tl (dropWhile (\<lambda>c. c \<noteq> CHR ''('') s)))))"

fun splitCommas :: "string \<Rightarrow> string list" where
  "splitCommas [] = [[]]"
| "splitCommas (c # cs) =
     (if c = CHR '','' then [] # splitCommas cs
      else (case splitCommas cs of [] \<Rightarrow> [[c]] | p # ps \<Rightarrow> (c # p) # ps))"

definition blank :: "string \<Rightarrow> bool" where
  "blank s = (filter (\<lambda>c. c \<noteq> CHR '' '') s = [])"

definition wellFormedColumns :: "string \<Rightarrow> bool" where
  "wellFormedColumns s = (blank s \<or> filter blank (splitCommas s) = [])"

definition execCreateTable :: "string \<Rightarrow> PgDB \<Rightarrow> error option \<times> PgDB" where
  "execCreateTable sql d =
     (case nextFault d of
        (Some err, d') \<Rightarrow> (Some err, called (ExecCreateTable sql) d')
      | (None, d') \<Rightarrow>
          (if wellFormedColumns (columnList sql)
           then (case relation d' of
                   None \<Rightarrow> (None, called (ExecCreateTable sql) (d'\<lparr>relation := Some []\<rparr>))
                 | Some rows \<Rightarrow> (Some DuplicateTable, called (ExecCreateTable sql) d'))
           else (Some SyntaxError, called (ExecCreateTable sql) d')))"

text \<open>
  \<open>INSERT INTO transactions (event_type, key, value) VALUES ($1, $2, $3)\<close>: the server
  draws the next value of the sequence for the column \<open>sequence\<close> and appends the row.
\<close>

definition execInsert :: "Event \<Rightarrow> PgDB \<Rightarrow> error option \<times> PgDB" where
  "execInsert e d =
     (case nextFault d of
        (Some err, d') \<Rightarrow> (Some err, called (ExecInsert (EventType e) (Key e) (Value e)) d')
      | (None, d') \<Rightarrow>
          (case relation d' of
             None \<Rightarrow> (Some UndefinedTable, called (ExecInsert (EventType e) (Key e) (Value e)) d')
           | Some rows \<Rightarrow>
               (None, called (ExecInsert (EventType e) (Key e) (Value e))
                  (d'\<lparr>relation := Some (rows @
                         [\<lparr>col_sequence = Suc (serial d'), col_event_type = Some (EventType e),
                           col_key = Some (Key e), col_value = Some (Value e)\<rparr>]),
                       serial := Suc (serial d')\<rparr>))))"

text \<open>
  \<open>SELECT sequence, event_type, key, value FROM transactions ORDER BY sequence\<close>.
\<close>

definition querySelect :: "PgDB \<Rightarrow> (error + Row list) \<times> PgDB" where
  "querySelect d =
     (case nextFault d of
        (Some err, d') \<Rightarrow> (Inl err, called QuerySelect d')
      | (None, d') \<Rightarrow>
          (case relation d' of
             None \<Rightarrow> (Inl UndefinedTable, called QuerySelect d')
           | Some rows \<Rightarrow> (Inr (sort_key col_sequence rows), called QuerySelect d')))"

text \<open>
  \<open>rows.Scan(&e.Sequence, &e.EventType, &e.Key, &e.Value)\<close>: a NULL column cannot be
  scanned into the field. The values of the bigint column lie below \<open>2^63\<close>, where the
  conversion to the unsigned field is exact.
\<close>

definition scanRow :: "Row \<Rightarrow> error + Event" where
  "scanRow r =
     (case col_event_type r of
        None \<Rightarrow> Inl ScanNull
      | Some t \<Rightarrow>
          (case col_key r of
             None \<Rightarrow> Inl ScanNull
           | Some k \<Rightarrow>
               (case col_value r of
                  None \<Rightarrow> Inl ScanNull
                | Some v \<Rightarrow>
                    Inr \<lparr>Sequence = of_nat (col_sequence r), EventType = t, Key = k, Value = v\<rparr>)))"

section \<open>db.go: the PostgreSQL transaction logger\<close>

record PostgresDBParams =
  dbName :: string
  host :: string
  user :: string
  password :: string

text \<open>
  A buffered channel: its capacity and the values it holds, oldest first. A channel
  variable is \<open>None\<close> while it is nil. \<open>send\<close> and \<open>recv\<close> give \<open>None\<close> when the operation
  cannot complete on the channel as it is: a send on a nil or a full channel, a receive
  from a nil or an empty one (the channels of the logger are never closed).
\<close>

record 'a chan =
  cap :: nat
  buf :: "'a list"

definition makeChan :: "nat \<Rightarrow> 'a chan" where
  "makeChan n = \<lparr>cap = n, buf = []\<rparr>"

definition send :: "'a \<Rightarrow> 'a chan option \<Rightarrow> 'a chan option" where
  "send x ch =
     (case ch of
        None \<Rightarrow> None
      | Some c \<Rightarrow> (if length (buf c) < cap c then Some (c\<lparr>buf := buf c @ [x]\<rparr>) else None))"

definition recv :: "'a chan option \<Rightarrow> ('a \<times> 'a chan) option" where
  "recv ch =
     (case ch of
        None \<Rightarrow> None
      | Some c \<Rightarrow> (case buf c of [] \<Rightarrow> None | x # xs \<Rightarrow> Some (x, c\<lparr>buf := xs\<rparr>)))"

text \<open>
  The struct has the fields \<open>events\<close>, \<open>errors\<close> and \<open>db\<close>. \<open>writer\<close> is the goroutine that
  \<open>Run\<close> starts: not started, at its \<open>range events\<close>, or holding the error of a failed
  \<open>Exec\<close> that it is sending on \<open>errors\<close>. The goroutine works on the channels \<open>Run\<close> made,
  which are the ones the fields hold: \<open>Run\<close> is the only place that assigns them.
\<close>

datatype writer_state = NotStarted | Ranging | Sending error

record PostgresTransactionLogger =
  events :: "Event chan option"
  errors :: "error chan option"
  db :: PgDB
  writer :: writer_state

definition connStr :: "PostgresDBParams \<Rightarrow> string" where
  "connStr config =
     ''host='' @ host config @ '' dbname='' @ dbName config @
     '' user='' @ user config @ '' password='' @ password config"

text \<open>
  The loop of \<open>verifyTableExists\<close>: \<open>for rows.Next() && result != TABLE { rows.Scan(&result) }\<close>.
  The error of \<open>Scan\<close> is dropped; scanning NULL leaves \<open>result\<close> as it is. The value returned
  with the result is \<open>rows.Err()\<close>.
\<close>

fun probeLoop :: "string option list \<Rightarrow> string \<Rightarrow> PgDB \<Rightarrow> (string \<times> error option) \<times> PgDB" where
  "probeLoop [] result d =
     (case nextFault d of (f, d') \<Rightarrow> ((result, f), d'))"
| "probeLoop (r # rs) result d =
     (case nextFault d of
        (Some err, d') \<Rightarrow> ((result, Some err), d')
      | (None, d') \<Rightarrow>
          (if result \<noteq> TABLE
           then probeLoop rs (case r of None \<Rightarrow> result | Some s \<Rightarrow> s) d'
           else ((result, None), d')))"

text \<open>
  \<open>verifyTableExists\<close> defers \<open>rows.Close()\<close> before it looks at the error of \<open>Query\<close>. When
  \<open>Query\<close> fails, \<open>rows\<close> is nil, and the deferred \<open>Close\<close> on the nil \<open>*sql.Rows\<close> dereferences
  it as the function returns: a run-time panic.
\<close>

definition verifyTableExists ::
    "PostgresTransactionLogger \<Rightarrow> ((bool \<times> error option) \<times> PostgresTransactionLogger) outcome" where
  "verifyTableExists l =
     (case queryToRegclass (db l) of
        (Inl err, d) \<Rightarrow> Panic
      | (Inr rows, d) \<Rightarrow>
          (case probeLoop rows [] d of
             ((result, rerr), d') \<Rightarrow> Ret ((result = TABLE, rerr), l\<lparr>db := d'\<rparr>)))"

text \<open>
  The statement of \<open>createTable\<close> after \<open>Sprintf\<close>, each run of tabs and line breaks of the
  source written as one space.
\<close>

definition createQuery :: string where
  "createQuery =
     ''CREATE TABLE '' @ TABLE @
     ''( sequence BIGSERIAL PRIMARY KEY, event_type SMALLINT, key TEXT, value TEXT, );''"

definition createTable :: "PostgresTransactionLogger \<Rightarrow> error option \<times> PostgresTransactionLogger" where
  "createTable l = (case execCreateTable createQuery (db l) of (err, d) \<Rightarrow> (err, l\<lparr>db := d\<rparr>))"

text \<open>A database that answers every call and whose \<open>transactions\<close> relation exists and is empty.\<close>

definition emptyLog :: PgDB where
  "emptyLog = \<lparr>faults = [], relation = Some [], serial = 0, history = []\<rparr>"

text \<open>The struct literal \<open>&PostgresTransactionLogger{db: db}\<close>: both channels nil.\<close>

definition loggerOn :: "PgDB \<Rightarrow> PostgresTransactionLogger" where
  "loggerOn d = \<lparr>events = None, errors = None, db = d, writer = NotStarted\<rparr>"

definition NewPostgresTransactionLogger ::
    "PostgresDBParams \<Rightarrow> PgDB \<Rightarrow> (error + PostgresTransactionLogger) outcome" where
  "NewPostgresTransactionLogger config server =
     (case sqlOpen (connStr config) server of
        (Some err, d) \<Rightarrow> Ret (Inl (Errorf ''failed to open db'' err))
      | (None, d) \<Rightarrow>
          (case dbPing d of
             (Some err, d1) \<Rightarrow> Ret (Inl (Errorf ''failed to open db connection'' err))
           | (None, d1) \<Rightarrow>
               (case verifyTableExists (loggerOn d1) of
                  Panic \<Rightarrow> Panic
                | Block \<Rightarrow> Block
                | Ret ((exists, Some err), l) \<Rightarrow> Ret (Inl (Errorf ''failed to verify table exists'' err))
                | Ret ((exists, None), l) \<Rightarrow>
                    (if exists then Ret (Inr l)
                     else (case createTable l of
                             (Some err, l') \<Rightarrow> Ret (Inl (Errorf ''failed to create table'' err))
                           | (None, l') \<Rightarrow> Ret (Inr l'))))))"

definition WritePut :: "string \<Rightarrow> string \<Rightarrow> PostgresTransactionLogger \<Rightarrow> PostgresTransactionLogger option" where
  "WritePut key val l =
     (case send \<lparr>Sequence = 0, EventType = EventPut, Key = key, Value = val\<rparr> (events l) of
        None \<Rightarrow> None
      | Some c \<Rightarrow> Some (l\<lparr>events := Some c\<rparr>))"

definition WriteDelete :: "string \<Rightarrow> PostgresTransactionLogger \<Rightarrow> PostgresTransactionLogger option" where
  "WriteDelete key l =
     (case send \<lparr>Sequence = 0, EventType = EventDelete, Key = key, Value = []\<rparr> (events l) of
        None \<Rightarrow> None
      | Some c \<Rightarrow> Some (l\<lparr>events := Some c\<rparr>))"

definition Err :: "PostgresTransactionLogger \<Rightarrow> error chan option" where
  "Err l = errors l"

text \<open>
  What the goroutine of \<open>ReadEvents\<close> does to its two channels, in order. \<open>outEvent\<close> is
  unbuffered, so each \<open>SendEvent\<close> completes when the consumer takes the event; \<open>outError\<close>
  has room for one error. The deferred calls run last, \<open>close(outError)\<close> before
  \<open>close(outEvent)\<close>.
\<close>

datatype chan_op = SendEvent Event | SendError error | CloseError | CloseEvent

text \<open>
  The loop \<open>for rows.Next() { ... }\<close> with the check of \<open>rows.Err()\<close> after it. A call of
  \<open>rows.Next\<close> that fails returns false and leaves its error in \<open>rows.Err()\<close>.
\<close>

fun readRows :: "Row list \<Rightarrow> PgDB \<Rightarrow> chan_op list \<times> PgDB" where
  "readRows [] d =
     (case nextFault d of
        (Some err, d') \<Rightarrow> ([SendError (Errorf ''transaction log read failure'' err)], d')
      | (None, d') \<Rightarrow> ([], d'))"
| "readRows (r # rs) d =
     (case nextFault d of
        (Some err, d') \<Rightarrow> ([SendError (Errorf ''transaction log read failure'' err)], d')
      | (None, d') \<Rightarrow>
          (case scanRow r of
             Inl err \<Rightarrow> ([SendError (Errorf ''error reading row'' err)], d')
           | Inr e \<Rightarrow> (case readRows rs d' of (ops, d'') \<Rightarrow> (SendEvent e # ops, d''))))"

definition ReadEvents :: "PostgresTransactionLogger \<Rightarrow> chan_op list \<times> PostgresTransactionLogger" where
  "ReadEvents l =
     (case querySelect (db l) of
        (Inl err, d) \<Rightarrow>
          ([SendError (Errorf ''sql query error'' err), CloseError, CloseEvent], l\<lparr>db := d\<rparr>)
      | (Inr rows, d) \<Rightarrow>
          (case readRows rows d of (ops, d') \<Rightarrow> (ops @ [CloseError, CloseEvent], l\<lparr>db := d'\<rparr>)))"

definition Run :: "PostgresTransactionLogger \<Rightarrow> PostgresTransactionLogger" where
  "Run l = l\<lparr>events := Some (makeChan 16), errors := Some (makeChan 1), writer := Ranging\<rparr>"

text \<open>
  One step of the goroutine of \<open>Run\<close>: at \<open>range events\<close> it takes the oldest event and
  executes the INSERT, keeping the error if there is one; holding an error, it sends it on
  \<open>errors\<close>. \<open>None\<close> when it cannot move: no event to take, or no room for the error.
\<close>

definition writerStep :: "PostgresTransactionLogger \<Rightarrow> PostgresTransactionLogger option" where
  "writerStep l =
     (case writer l of
        NotStarted \<Rightarrow> None
      | Ranging \<Rightarrow>
          (case recv (events l) of
             None \<Rightarrow> None
           | Some (e, c) \<Rightarrow>
               (case execInsert e (db l) of
                  (None, d) \<Rightarrow> Some (l\<lparr>events := Some c, db := d\<rparr>)
                | (Some err, d) \<Rightarrow> Some (l\<lparr>events := Some c, db := d, writer := Sending err\<rparr>)))
      | Sending err \<Rightarrow>
          (case send err (errors l) of
             None \<Rightarrow> None
           | Some c \<Rightarrow> Some (l\<lparr>errors := Some c, writer := Ranging\<rparr>)))"

text \<open>A supervisor receiving from the channel \<open>Err()\<close> returns.\<close>

definition recvErr :: "PostgresTransactionLogger \<Rightarrow> (error \<times> PostgresTransactionLogger) option" where
  "recvErr l =
     (case recv (Err l) of
        None \<Rightarrow> None
      | Some (err, c) \<Rightarrow> Some (err, l\<lparr>errors := Some c\<rparr>))"

section \<open>main.go: the store and the replay at startup\<close>

text \<open>
  Modelled from the spec: the interface \<open>TransactionLogger\<close> is not in the source files.
  main.go calls \<open>WriteDelete\<close>, \<open>WritePut\<close>, \<open>ReadEvents\<close> and \<open>Run\<close> through it, and db.go
  implements them (with \<open>Err\<close>) for \<open>PostgresTransactionLogger\<close>. A logger of state type
  \<open>'l\<close> is the record of its methods. \<open>readEvents\<close> gives what the consumer of the two
  channels can receive (section 4.2: a finite sequence of events paired with an error
  channel): the events in order, then at most one error, after which both channels are
  closed.
\<close>

record 'l TransactionLogger =
  writeDelete :: "string \<Rightarrow> 'l \<Rightarrow> 'l option"
  writePut :: "string \<Rightarrow> string \<Rightarrow> 'l \<Rightarrow> 'l option"
  readEvents :: "'l \<Rightarrow> (Event list \<times> error option) \<times> 'l"
  run :: "'l \<Rightarrow> 'l"

fun eventsSent :: "chan_op list \<Rightarrow> Event list" where
  "eventsSent [] = []"
| "eventsSent (SendEvent e # tr) = e # eventsSent tr"
| "eventsSent (SendError x # tr) = eventsSent tr"
| "eventsSent (CloseError # tr) = eventsSent tr"
| "eventsSent (CloseEvent # tr) = eventsSent tr"

fun errorSent :: "chan_op list \<Rightarrow> error option" where
  "errorSent [] = None"
| "errorSent (SendError x # tr) = Some x"
| "errorSent (SendEvent e # tr) = errorSent tr"
| "errorSent (CloseError # tr) = errorSent tr"
| "errorSent (CloseEvent # tr) = errorSent tr"

definition PostgresLogger :: "PostgresTransactionLogger TransactionLogger" where
  "PostgresLogger =
     \<lparr>writeDelete = WriteDelete,
      writePut = WritePut,
      readEvents = (\<lambda>l. case ReadEvents l of (tr, l') \<Rightarrow> ((eventsSent tr, errorSent tr), l')),
      run = Run\<rparr>"

text \<open>
  The package variables \<open>store\<close> (its map; each function below holds the lock for its one
  statement on the map) and \<open>logger\<close>, nil until \<open>initializeTransactionLog\<close> assigns it.
\<close>

record 'l Globals =
  store :: "string \<Rightarrow> string option"
  logger :: "'l option"

definition Put ::
    "'l TransactionLogger \<Rightarrow> string \<Rightarrow> string \<Rightarrow> 'l Globals \<Rightarrow> (error option \<times> 'l Globals) outcome" where
  "Put lg key val w =
     (case logger w of
        None \<Rightarrow> Panic
      | Some l \<Rightarrow>
          (case writePut lg key val l of
             None \<Rightarrow> Block
           | Some l' \<Rightarrow> Ret (None, \<lparr>store = (store w)(key \<mapsto> val), logger = Some l'\<rparr>)))"

definition Delete ::
    "'l TransactionLogger \<Rightarrow> string \<Rightarrow> 'l Globals \<Rightarrow> (error option \<times> 'l Globals) outcome" where
  "Delete lg key w =
     (case logger w of
        None \<Rightarrow> Panic
      | Some l \<Rightarrow>
          (case writeDelete lg key l of
             None \<Rightarrow> Block
           | Some l' \<Rightarrow> Ret (None, \<lparr>store = (store w)(key := None), logger = Some l'\<rparr>)))"

text \<open>The \<open>switch e.EventType\<close> of the replay loop; with no case for the type, \<open>err\<close> stays nil.\<close>

definition applyEvent ::
    "'l TransactionLogger \<Rightarrow> Event \<Rightarrow> 'l Globals \<Rightarrow> (error option \<times> 'l Globals) outcome" where
  "applyEvent lg e w =
     (case EventType e of
        EventDelete \<Rightarrow> Delete lg (Key e) w
      | EventPut \<Rightarrow> Put lg (Key e) (Value e) w
      | EventOther \<Rightarrow> Ret (None, w))"

text \<open>
  The loop \<open>for ok && err == nil { select { ... } }\<close> against a producer that sends the events
  \<open>evs\<close>, then the error \<open>perr\<close> if there is one, then closes both channels. While an event is
  left the producer is at its send on the unbuffered channel and the error channel is empty
  and open, so the select takes the event. After the last event both cases of the select
  become ready (the error channel holds the error or is closed, the event channel is
  closed) and the select may take either: \<open>pickErrors\<close> is that choice. Taking the error
  case ends the loop with the error, or with nil from the closed channel. Taking the event
  case receives the zero \<open>Event\<close> with \<open>ok = false\<close>; the switch runs on it, of event type
  \<open>zt\<close>, and the loop ends.
\<close>

fun replayLoop ::
    "'l TransactionLogger \<Rightarrow> EventType \<Rightarrow> bool \<Rightarrow> Event list \<Rightarrow> error option \<Rightarrow> 'l Globals \<Rightarrow>
     (error option \<times> 'l Globals) outcome" where
  "replayLoop lg zt pickErrors [] perr w =
     (if pickErrors then Ret (perr, w) else applyEvent lg (zeroEvent zt) w)"
| "replayLoop lg zt pickErrors (e # es) perr w =
     (case applyEvent lg e w of
        Ret (None, w') \<Rightarrow> replayLoop lg zt pickErrors es perr w'
      | Ret (Some err, w') \<Rightarrow> Ret (Some err, w')
      | Panic \<Rightarrow> Panic
      | Block \<Rightarrow> Block)"

text \<open>
  \<open>newLogger\<close> is what \<open>NewFileTransactionLogger("transaction.log")\<close> returned; that
  constructor is not in the source files.
\<close>

definition initializeTransactionLog ::
    "'l TransactionLogger \<Rightarrow> EventType \<Rightarrow> bool \<Rightarrow> error + 'l \<Rightarrow> 'l Globals \<Rightarrow>
     (error option \<times> 'l Globals) outcome" where
  "initializeTransactionLog lg zt pickErrors newLogger w =
     (case newLogger of
        Inl err \<Rightarrow> Ret (Some (Errorf ''failed to create event logger'' err), w\<lparr>logger := None\<rparr>)
      | Inr l \<Rightarrow>
          (case readEvents lg l of
             ((evs, perr), l1) \<Rightarrow>
               (case replayLoop lg zt pickErrors evs perr (w\<lparr>logger := Some l1\<rparr>) of
                  Ret (err, w') \<Rightarrow>
                    (case logger w' of
                       None \<Rightarrow> Panic
                     | Some l' \<Rightarrow> Ret (err, w'\<lparr>logger := Some (run lg l')\<rparr>))
                | Panic \<Rightarrow> Panic
                | Block \<Rightarrow> Block)))"

text \<open>
  \<open>main\<close> up to the call of \<open>http.ListenAndServeTLS\<close>: \<open>Ret w\<close> is the process serving
  requests over the package variables \<open>w\<close>.
\<close>

definition main ::
    "'l TransactionLogger \<Rightarrow> EventType \<Rightarrow> bool \<Rightarrow> error + 'l \<Rightarrow> 'l Globals \<Rightarrow> 'l Globals outcome" where
  "main lg zt pickErrors newLogger w =
     (case initializeTransactionLog lg zt pickErrors newLogger w of
        Ret (None, w') \<Rightarrow> Ret w'
      | Ret (Some err, w') \<Rightarrow> Panic
      | Panic \<Rightarrow> Panic
      | Block \<Rightarrow> Block)"

section \<open>The live pipeline: handlers, the writer goroutine and a supervisor\<close>

text \<open>
  \<open>keyValuePutHandler\<close> calls \<open>Put\<close> and \<open>keyValueDeleteHandler\<close> calls \<open>Delete\<close>. A run of the
  live system is a list of moves: a handler serving one request to its end, one step of the
  writer goroutine, or a supervisor receiving one error from \<open>Err()\<close>. A move that cannot be
  made in the state it meets (a blocked send or receive) makes the list no execution:
  \<open>moves\<close> is \<open>None\<close>.
\<close>

datatype request = PutRequest string string | DeleteRequest string

datatype move = Handler request | Writer | Supervisor

fun step :: "move \<Rightarrow> PostgresTransactionLogger Globals \<Rightarrow> PostgresTransactionLogger Globals option" where
  "step (Handler (PutRequest key val)) w =
     (case Put PostgresLogger key val w of Ret (err, w') \<Rightarrow> Some w' | Panic \<Rightarrow> None | Block \<Rightarrow> None)"
| "step (Handler (DeleteRequest key)) w =
     (case Delete PostgresLogger key w of Ret (err, w') \<Rightarrow> Some w' | Panic \<Rightarrow> None | Block \<Rightarrow> None)"
| "step Writer w =
     (case logger w of
        None \<Rightarrow> None
      | Some l \<Rightarrow> (case writerStep l of None \<Rightarrow> None | Some l' \<Rightarrow> Some (w\<lparr>logger := Some l'\<rparr>)))"
| "step Supervisor w =
     (case logger w of
        None \<Rightarrow> None
      | Some l \<Rightarrow> (case recvErr l of None \<Rightarrow> None | Some (err, l') \<Rightarrow> Some (w\<lparr>logger := Some l'\<rparr>)))"

fun moves :: "move list \<Rightarrow> PostgresTransactionLogger Globals \<Rightarrow> PostgresTransactionLogger Globals option" where
  "moves [] w = Some w"
| "moves (m # ms) w = (case step m w of None \<Rightarrow> None | Some w' \<Rightarrow> moves ms w')"

fun requests :: "move list \<Rightarrow> request list" where
  "requests [] = []"
| "requests (Handler r # ms) = r # requests ms"
| "requests (Writer # ms) = requests ms"
| "requests (Supervisor # ms) = requests ms"

text \<open>
  The store after the replay loop's switch on one event, and after a list of events: the
  statement on the map that \<open>Delete\<close> or \<open>Put\<close> makes for it.
\<close>

definition storeApply :: "Event \<Rightarrow> (string \<Rightarrow> string option) \<Rightarrow> (string \<Rightarrow> string option)" where
  "storeApply e m =
     (case EventType e of
        EventDelete \<Rightarrow> m(Key e := None)
      | EventPut \<Rightarrow> m(Key e \<mapsto> Value e)
      | EventOther \<Rightarrow> m)"

definition replayStore :: "Event list \<Rightarrow> (string \<Rightarrow> string option) \<Rightarrow> (string \<Rightarrow> string option)" where
  "replayStore evs m = foldl (\<lambda>m' e. storeApply e m') m evs"

text \<open>
  The store state in the spec's words (section 3): last write wins per key; Delete removes
  the key if present and is a no-op otherwise.
\<close>

fun specApply :: "(string \<Rightarrow> string option) \<Rightarrow> request \<Rightarrow> (string \<Rightarrow> string option)" where
  "specApply m (PutRequest key val) = m(key \<mapsto> val)"
| "specApply m (DeleteRequest key) = (if m key = None then m else m(key := None))"

text \<open>
  The writer goroutine left to itself for at most \<open>n\<close> steps, and the writer next to a
  supervisor that receives every error as soon as it is in the channel (\<open>seen\<close> collects
  what the supervisor received).
\<close>

fun writerRun :: "nat \<Rightarrow> PostgresTransactionLogger \<Rightarrow> PostgresTransactionLogger" where
  "writerRun 0 l = l"
| "writerRun (Suc n) l = (case writerStep l of None \<Rightarrow> l | Some l' \<Rightarrow> writerRun n l')"

definition supervisedStep ::
    "error list \<times> PostgresTransactionLogger \<Rightarrow> error list \<times> PostgresTransactionLogger" where
  "supervisedStep s =
     (case recvErr (snd s) of
        Some (err, l') \<Rightarrow> (fst s @ [err], l')
      | None \<Rightarrow> (case writerStep (snd s) of None \<Rightarrow> s | Some l' \<Rightarrow> (fst s, l')))"

fun supervisedRun ::
    "nat \<Rightarrow> error list \<times> PostgresTransactionLogger \<Rightarrow> error list \<times> PostgresTransactionLogger" where
  "supervisedRun 0 s = s"
| "supervisedRun (Suc n) s = supervisedRun n (supervisedStep s)"

text \<open>Executing the INSERT for each event of a list in turn: the errors, and the database after.\<close>

fun appendAll :: "Event list \<Rightarrow> PgDB \<Rightarrow> error list \<times> PgDB" where
  "appendAll [] d = ([], d)"
| "appendAll (e # es) d =
     (case execInsert e d of
        (None, d') \<Rightarrow> appendAll es d'
      | (Some err, d') \<Rightarrow> (case appendAll es d' of (errs, d'') \<Rightarrow> (err # errs, d'')))"

text \<open>
  The \<open>Event\<close> literal that \<open>WritePut\<close> or \<open>WriteDelete\<close> sends for a request, what of an event
  reaches the table and comes back from it (the INSERT does not write \<open>Sequence\<close>), and the
  call on the handle that the writer makes for an event.
\<close>

definition eventOf :: "request \<Rightarrow> Event" where
  "eventOf r =
     (case r of
        PutRequest key val \<Rightarrow> \<lparr>Sequence = 0, EventType = EventPut, Key = key, Value = val\<rparr>
      | DeleteRequest key \<Rightarrow> \<lparr>Sequence = 0, EventType = EventDelete, Key = key, Value = []\<rparr>)"

definition payload :: "Event \<Rightarrow> EventType \<times> string \<times> string" where
  "payload e = (EventType e, Key e, Value e)"

definition insertOf :: "Event \<Rightarrow> sql_call" where
  "insertOf e = ExecInsert (EventType e) (Key e) (Value e)"

text \<open>
  The invariant of a live pipeline on a database that answers every call, after the
  requests \<open>rs\<close> have been served: the rows of the log followed by the events still in the
  channel are the events of \<open>rs\<close> in order; the rows are in ascending sequence order; no error
  is pending; and the store is what the spec's reading of \<open>rs\<close> gives.
\<close>

definition healthy :: "request list \<Rightarrow> PostgresTransactionLogger Globals \<Rightarrow> bool" where
  "healthy rs w =
     (\<exists>l c rows evs.
        logger w = Some l \<and> events l = Some c \<and> cap c = 16 \<and>
        errors l = Some (makeChan 1) \<and> writer l = Ranging \<and>
        faults (db l) = [] \<and> relation (db l) = Some rows \<and>
        map scanRow rows = map Inr evs \<and>
        map payload evs @ map payload (buf c) = map (payload \<circ> eventOf) rs \<and>
        sorted (map col_sequence rows) \<and> list_all (\<lambda>r. col_sequence r \<le> serial (db l)) rows \<and>
        store w = foldl specApply Map.empty rs)"

text \<open>The run in which the writer takes each event right after its handler has sent it.\<close>

definition alternate :: "request list \<Rightarrow> move list" where
  "alternate rs = concat (map (\<lambda>r. [Handler r, Writer]) rs)"

section \<open>Logs used as examples\<close>


definition unreadableLog :: PgDB where
  "unreadableLog =
     \<lparr>faults = [],
      relation = Some
        [\<lparr>col_sequence = 1, col_event_type = Some EventOther, col_key = Some ''x'', col_value = Some []\<rparr>,
         \<lparr>col_sequence = 2, col_event_type = Some EventPut, col_key = Some ''c'', col_value = None\<rparr>],
      serial = 2, history = []\<rparr>"

text \<open>
  A started logger with three submitted events in its channel, on a database that fails the
  next two calls; and the logger after the requests Put a 1, Delete b, Put a 2 have been
  served and written on a database that answers every call.
\<close>

definition failingQueue :: PostgresTransactionLogger where
  "failingQueue =
     \<lparr>events = Some \<lparr>cap = 16,
        buf = [\<lparr>Sequence = 0, EventType = EventPut, Key = ''a'', Value = ''1''\<rparr>,
               \<lparr>Sequence = 0, EventType = EventPut, Key = ''b'', Value = ''2''\<rparr>,
               \<lparr>Sequence = 0, EventType = EventPut, Key = ''c'', Value = ''3''\<rparr>]\<rparr>,
      errors = Some \<lparr>cap = 1, buf = []\<rparr>,
      db = emptyLog\<lparr>faults := [Some (DriverError 1), Some (DriverError 2)]\<rparr>,
      writer = Ranging\<rparr>"


section \<open>Construction of the PostgreSQL logger\<close>

lemma createQuery_rejected: "\<not> wellFormedColumns (columnList createQuery)"
  by code_simp

lemma statement_without_trailing_comma_accepted:
  "wellFormedColumns (columnList
     ''CREATE TABLE transactions( sequence BIGSERIAL PRIMARY KEY, event_type SMALLINT, key TEXT, value TEXT );'')"
  by code_simp

lemma NewPostgresTransactionLogger_ping_fails:
  "NewPostgresTransactionLogger config
     \<lparr>faults = None # Some err # fs, relation = r, serial = n, history = h\<rparr> =
   Ret (Inl (Errorf ''failed to open db connection'' err))"
  by (simp add: NewPostgresTransactionLogger_def sqlOpen_def dbPing_def nextFault_def called_def)

lemma NewPostgresTransactionLogger_table_exists:
  "NewPostgresTransactionLogger config \<lparr>faults = [], relation = Some rows, serial = n, history = h\<rparr> =
     Ret (Inr \<lparr>events = None, errors = None,
               db = \<lparr>faults = [], relation = Some rows, serial = n,
                      history = h @ [SqlOpen (connStr config), SqlPing, QueryToRegclass]\<rparr>,
               writer = NotStarted\<rparr>)"
  by (simp add: NewPostgresTransactionLogger_def sqlOpen_def dbPing_def nextFault_def called_def
      verifyTableExists_def queryToRegclass_def TABLE_def loggerOn_def)

text \<open>
  C4. Opened against a database that has no \<open>transactions\<close> relation and answers every call,
  the constructor does not create the table: the column list of the CREATE TABLE statement
  ends in a comma, PostgreSQL refuses the statement, and the constructor returns the error
  of \<open>createTable\<close>. (Against a database that has the relation it succeeds without a CREATE
  TABLE: \<open>NewPostgresTransactionLogger_table_exists\<close>.)
\<close>

theorem NewPostgresTransactionLogger_no_table:
  "NewPostgresTransactionLogger config \<lparr>faults = [], relation = None, serial = n, history = h\<rparr> =
     Ret (Inl (Errorf ''failed to create table'' SyntaxError))"
  by (simp add: NewPostgresTransactionLogger_def sqlOpen_def dbPing_def nextFault_def called_def
      verifyTableExists_def queryToRegclass_def createTable_def execCreateTable_def
      createQuery_rejected TABLE_def loggerOn_def)

text \<open>
  C5. When \<open>sql.Open\<close> and \<open>Ping\<close> succeed and the query of the table-existence probe fails,
  the constructor panics instead of returning the error. (A failing \<open>Ping\<close> is returned as
  an error: \<open>NewPostgresTransactionLogger_ping_fails\<close>.)
\<close>

theorem NewPostgresTransactionLogger_probe_query_fails:
  "NewPostgresTransactionLogger config
     \<lparr>faults = [None, None, Some err], relation = r, serial = n, history = h\<rparr> = Panic"
  by (simp add: NewPostgresTransactionLogger_def sqlOpen_def dbPing_def nextFault_def called_def
      verifyTableExists_def queryToRegclass_def loggerOn_def)

section \<open>Replay at startup\<close>

lemma applyEvent_submits:
  "applyEvent lg \<lparr>Sequence = n, EventType = EventPut, Key = key, Value = val\<rparr>
     \<lparr>store = m, logger = Some l\<rparr> =
   (case writePut lg key val l of
      None \<Rightarrow> Block
    | Some l' \<Rightarrow> Ret (None, \<lparr>store = m(key \<mapsto> val), logger = Some l'\<rparr>))"
  by (simp add: applyEvent_def Put_def split: option.split)

lemma WritePut_nil_channel:
  "events l = None \<Longrightarrow> WritePut key val l = None \<and> WriteDelete key l = None"
  by (simp add: WritePut_def WriteDelete_def send_def)

text \<open>
  C2. Replay applies an event through \<open>Put\<close> or \<open>Delete\<close>, which submit it to the logger
  again, whatever the logger (\<open>applyEvent_submits\<close>). With the PostgreSQL logger the channel
  \<open>events\<close> is still nil during replay (\<open>Run\<close> makes it, after the loop), so the send of
  \<open>WritePut\<close> never completes: replay of a log that holds one Put event does not return,
  whatever the select would choose.
\<close>

theorem replay_blocks_on_first_event:
  "initializeTransactionLog PostgresLogger zt pickErrors
     (Inr (loggerOn
        \<lparr>faults = [],
         relation = Some [\<lparr>col_sequence = 1, col_event_type = Some EventPut,
                           col_key = Some ''a'', col_value = Some ''1''\<rparr>],
         serial = 1, history = []\<rparr>))
     \<lparr>store = Map.empty, logger = None\<rparr> = Block"
  by (simp add: initializeTransactionLog_def PostgresLogger_def ReadEvents_def querySelect_def
      nextFault_def called_def scanRow_def applyEvent_def Put_def WritePut_def send_def
      loggerOn_def)

lemma applyEvent_Ret:
  assumes "applyEvent lg e w = Ret (err, w')"
  shows "err = None \<and> store w' = storeApply e (store w) \<and> (logger w \<noteq> None \<longrightarrow> logger w' \<noteq> None)"
  using assms
  by (cases "EventType e")
     (auto simp: applyEvent_def storeApply_def Put_def Delete_def split: option.splits)

lemma replayLoop_error_received:
  "replayLoop lg zt True evs (Some err) w = Block \<or>
   replayLoop lg zt True evs (Some err) w = Panic \<or>
   (\<exists>w'. replayLoop lg zt True evs (Some err) w = Ret (Some err, w') \<and>
         store w' = replayStore evs (store w) \<and> (logger w \<noteq> None \<longrightarrow> logger w' \<noteq> None))"
proof (induction evs arbitrary: w)
  case Nil
  show ?case by (simp add: replayStore_def)
next
  case (Cons e es)
  show ?case
  proof (cases "applyEvent lg e w")
    case (Ret r)
    obtain r1 w1 where r: "r = (r1, w1)" by (cases r)
    with Ret have a: "applyEvent lg e w = Ret (r1, w1)" by simp
    from applyEvent_Ret [OF a] have n: "r1 = None" and s: "store w1 = storeApply e (store w)"
      and lgr: "logger w \<noteq> None \<longrightarrow> logger w1 \<noteq> None" by auto
    from a n have step:
      "replayLoop lg zt True (e # es) (Some err) w = replayLoop lg zt True es (Some err) w1"
      by simp
    from Cons.IH [of w1] show ?thesis
      unfolding step using s lgr by (auto simp: replayStore_def)
  next
    case Panic
    then show ?thesis by simp
  next
    case Block
    then show ?thesis by simp
  qed
qed

text \<open>
  When the loop ends through the error case of the select and returns, the store is
  \<open>replayStore\<close> of the events received, whatever the logger.
\<close>

lemma replayLoop_store:
  "replayLoop lg zt True evs perr w = Ret (r, w') \<Longrightarrow>
     r = perr \<and> store w' = replayStore evs (store w)"
proof (induction evs arbitrary: w)
  case Nil
  then show ?case by (simp add: replayStore_def)
next
  case (Cons e es)
  show ?case
  proof (cases "applyEvent lg e w")
    case (Ret a)
    obtain r1 w1 where "a = (r1, w1)" by (cases a)
    with Ret have a: "applyEvent lg e w = Ret (r1, w1)" by simp
    from applyEvent_Ret [OF a] have n: "r1 = None" and s: "store w1 = storeApply e (store w)"
      by auto
    from a n Cons.prems have "replayLoop lg zt True es perr w1 = Ret (r, w')" by simp
    from Cons.IH [OF this] s show ?thesis by (simp add: replayStore_def)
  next
    case Panic
    with Cons.prems show ?thesis by simp
  next
    case Block
    with Cons.prems show ?thesis by simp
  qed
qed

lemma replayLoop_no_Panic:
  "logger w \<noteq> None \<Longrightarrow> replayLoop lg zt pickErrors evs perr w \<noteq> Panic"
proof (induction evs arbitrary: w)
  case Nil
  then show ?case
    by (cases "EventType (zeroEvent zt)")
       (auto simp: applyEvent_def Put_def Delete_def split: option.splits)
next
  case (Cons e es)
  show ?case
  proof (cases "applyEvent lg e w")
    case (Ret r)
    obtain r1 w1 where r: "r = (r1, w1)" by (cases r)
    with Ret have a: "applyEvent lg e w = Ret (r1, w1)" by simp
    from applyEvent_Ret [OF a] Cons.prems have n: "r1 = None" and lgr: "logger w1 \<noteq> None" by auto
    from a n have step:
      "replayLoop lg zt pickErrors (e # es) perr w = replayLoop lg zt pickErrors es perr w1"
      by simp
    from Cons.IH [OF lgr] show ?thesis unfolding step .
  next
    case Panic
    with Cons.prems show ?thesis
      by (cases "EventType e") (auto simp: applyEvent_def Put_def Delete_def split: option.splits)
  next
    case Block
    then show ?thesis by simp
  qed
qed

text \<open>
  C3 as stated fails: when the query of \<open>ReadEvents\<close> fails and the replay loop receives the
  error, \<open>initializeTransactionLog\<close> returns the error with the logger run: both channels
  made and the writer goroutine at its \<open>range\<close>.
\<close>

theorem Run_after_failed_replay:
  "initializeTransactionLog PostgresLogger EventOther True
     (Inr (loggerOn (emptyLog\<lparr>faults := [Some (DriverError 1)]\<rparr>)))
     \<lparr>store = Map.empty, logger = None\<rparr> =
   Ret (Some (Errorf ''sql query error'' (DriverError 1)),
        \<lparr>store = Map.empty,
         logger = Some \<lparr>events = Some \<lparr>cap = 16, buf = []\<rparr>, errors = Some \<lparr>cap = 1, buf = []\<rparr>,
                         db = \<lparr>faults = [], relation = Some [], serial = 0, history = [QuerySelect]\<rparr>,
                         writer = Ranging\<rparr>\<rparr>)"
  by (simp add: initializeTransactionLog_def PostgresLogger_def ReadEvents_def querySelect_def
      nextFault_def called_def loggerOn_def emptyLog_def Run_def makeChan_def)

text \<open>
  C3, amended. \<open>Run\<close> is invoked once the replay loop has ended, whether it ended because
  the events were exhausted or because an error was received: whenever
  \<open>initializeTransactionLog\<close> returns after a successful construction, with an error or
  without, the loop had returned that result and the logger it left has been run.
\<close>

theorem Run_after_replay_loop:
  assumes "readEvents lg l = ((evs, perr), l1)"
    and "initializeTransactionLog lg zt pickErrors (Inr l) w = Ret (err, w')"
  shows "\<exists>w1 l'. replayLoop lg zt pickErrors evs perr (w\<lparr>logger := Some l1\<rparr>) = Ret (err, w1) \<and>
                 logger w1 = Some l' \<and> w' = w1\<lparr>logger := Some (run lg l')\<rparr>"
  using assms
  by (auto simp: initializeTransactionLog_def split: outcome.splits option.splits)

theorem Run_after_replay_loop_witness:
  "readEvents PostgresLogger (loggerOn (emptyLog\<lparr>faults := [Some (DriverError 1)]\<rparr>)) =
     (([], Some (Errorf ''sql query error'' (DriverError 1))),
      loggerOn \<lparr>faults = [], relation = Some [], serial = 0, history = [QuerySelect]\<rparr>) \<and>
   initializeTransactionLog PostgresLogger EventOther True
     (Inr (loggerOn (emptyLog\<lparr>faults := [Some (DriverError 1)]\<rparr>)))
     \<lparr>store = Map.empty, logger = None\<rparr> =
   Ret (Some (Errorf ''sql query error'' (DriverError 1)),
        \<lparr>store = Map.empty,
         logger = Some (run PostgresLogger
                   (loggerOn \<lparr>faults = [], relation = Some [], serial = 0, history = [QuerySelect]\<rparr>))\<rparr>)"
  using Run_after_replay_loop [of PostgresLogger "loggerOn (emptyLog\<lparr>faults := [Some (DriverError 1)]\<rparr>)"
      "[]" "Some (Errorf ''sql query error'' (DriverError 1))"
      "loggerOn \<lparr>faults = [], relation = Some [], serial = 0, history = [QuerySelect]\<rparr>"
      EventOther True "\<lparr>store = Map.empty, logger = None\<rparr>"]
  by (simp add: initializeTransactionLog_def PostgresLogger_def ReadEvents_def querySelect_def
      nextFault_def called_def loggerOn_def emptyLog_def Run_def makeChan_def)

text \<open>
  C7. When the producer sends an error after the events \<open>evs\<close> and the select receives it,
  the loop ends at once (the receiving iteration leaves the package variables as they are),
  so exactly \<open>evs\<close> have been applied to the store; \<open>initializeTransactionLog\<close> returns that
  error and \<open>main\<close> panics instead of serving. The other possibility is that the error was
  never received because applying one of \<open>evs\<close> blocked.
\<close>

theorem replay_error_is_fatal:
  assumes "readEvents lg l = ((evs, Some err), l1)"
  shows "replayLoop lg zt True [] (Some err) w1 = Ret (Some err, w1) \<and>
         (initializeTransactionLog lg zt True (Inr l) w = Block \<and> main lg zt True (Inr l) w = Block \<or>
          (\<exists>w'. initializeTransactionLog lg zt True (Inr l) w = Ret (Some err, w') \<and>
                store w' = replayStore evs (store w) \<and>
                main lg zt True (Inr l) w = Panic))"
proof -
  let ?w = "w\<lparr>logger := Some l1\<rparr>"
  have np: "replayLoop lg zt True evs (Some err) ?w \<noteq> Panic"
    by (rule replayLoop_no_Panic) simp
  from replayLoop_error_received [of lg zt evs err ?w] np
  consider (block) "replayLoop lg zt True evs (Some err) ?w = Block"
    | (ret) w' where "replayLoop lg zt True evs (Some err) ?w = Ret (Some err, w')"
        "store w' = replayStore evs (store w)" "logger w' \<noteq> None"
    by auto
  then have "initializeTransactionLog lg zt True (Inr l) w = Block \<and> main lg zt True (Inr l) w = Block \<or>
          (\<exists>w'. initializeTransactionLog lg zt True (Inr l) w = Ret (Some err, w') \<and>
                store w' = replayStore evs (store w) \<and>
                main lg zt True (Inr l) w = Panic)"
  proof cases
    case block
    then show ?thesis using assms by (simp add: initializeTransactionLog_def main_def)
  next
    case ret
    then show ?thesis using assms by (auto simp: initializeTransactionLog_def main_def)
  qed
  then show ?thesis by simp
qed

theorem replay_error_is_fatal_witness:
  "readEvents PostgresLogger (loggerOn unreadableLog) =
     (([\<lparr>Sequence = 1, EventType = EventOther, Key = ''x'', Value = []\<rparr>],
       Some (Errorf ''error reading row'' ScanNull)),
      loggerOn (unreadableLog\<lparr>history := [QuerySelect]\<rparr>)) \<and>
   initializeTransactionLog PostgresLogger EventOther True (Inr (loggerOn unreadableLog))
     \<lparr>store = Map.empty, logger = None\<rparr> =
   Ret (Some (Errorf ''error reading row'' ScanNull),
        \<lparr>store = Map.empty, logger = Some (Run (loggerOn (unreadableLog\<lparr>history := [QuerySelect]\<rparr>)))\<rparr>) \<and>
   main PostgresLogger EventOther True (Inr (loggerOn unreadableLog))
     \<lparr>store = Map.empty, logger = None\<rparr> = Panic"
  using replay_error_is_fatal [of PostgresLogger "loggerOn unreadableLog"
      "[\<lparr>Sequence = 1, EventType = EventOther, Key = ''x'', Value = []\<rparr>]"
      "Errorf ''error reading row'' ScanNull"
      "loggerOn (unreadableLog\<lparr>history := [QuerySelect]\<rparr>)"
      EventOther "\<lparr>store = Map.empty, logger = None\<rparr>" "\<lparr>store = Map.empty, logger = None\<rparr>"]
  by (simp add: main_def initializeTransactionLog_def PostgresLogger_def ReadEvents_def
      querySelect_def nextFault_def called_def loggerOn_def unreadableLog_def scanRow_def
      applyEvent_def)

text \<open>
  An error that is sent but not received is outside C7: when the select takes the closed
  event channel instead, the loop ends with a nil error and \<open>main\<close> goes on to serve.
\<close>

lemma replay_can_miss_error:
  "main PostgresLogger EventOther False
     (Inr (loggerOn (emptyLog\<lparr>faults := [Some (DriverError 1)]\<rparr>)))
     \<lparr>store = Map.empty, logger = None\<rparr> =
   Ret \<lparr>store = Map.empty,
         logger = Some \<lparr>events = Some \<lparr>cap = 16, buf = []\<rparr>, errors = Some \<lparr>cap = 1, buf = []\<rparr>,
                         db = \<lparr>faults = [], relation = Some [], serial = 0, history = [QuerySelect]\<rparr>,
                         writer = Ranging\<rparr>\<rparr>"
  by (simp add: main_def initializeTransactionLog_def PostgresLogger_def ReadEvents_def querySelect_def
      nextFault_def called_def loggerOn_def emptyLog_def Run_def makeChan_def applyEvent_def zeroEvent_def)

section \<open>The event stream of ReadEvents\<close>




section \<open>Submitting to the live pipeline\<close>

text \<open>
  C9 as stated fails: after sixteen submissions that the writer has not yet taken, the
  channel is full, and neither \<open>WritePut\<close> nor \<open>WriteDelete\<close> can complete until the writer
  goroutine has taken an event, which it does between two of its INSERTs.
\<close>

theorem WritePut_blocks_on_full_queue:
  "map_option logger
     (moves (replicate 16 (Handler (PutRequest ''a'' ''1'')))
        \<lparr>store = Map.empty, logger = Some (Run (loggerOn emptyLog))\<rparr>) =
   Some (Some \<lparr>events = Some \<lparr>cap = 16,
                   buf = replicate 16 \<lparr>Sequence = 0, EventType = EventPut, Key = ''a'', Value = ''1''\<rparr>\<rparr>,
               errors = Some \<lparr>cap = 1, buf = []\<rparr>,
               db = emptyLog,
               writer = Ranging\<rparr>) \<and>
   WritePut ''a'' ''2''
     \<lparr>events = Some \<lparr>cap = 16,
          buf = replicate 16 \<lparr>Sequence = 0, EventType = EventPut, Key = ''a'', Value = ''1''\<rparr>\<rparr>,
      errors = Some \<lparr>cap = 1, buf = []\<rparr>,
      db = emptyLog,
      writer = Ranging\<rparr> = None \<and>
   WriteDelete ''a''
     \<lparr>events = Some \<lparr>cap = 16,
          buf = replicate 16 \<lparr>Sequence = 0, EventType = EventPut, Key = ''a'', Value = ''1''\<rparr>\<rparr>,
      errors = Some \<lparr>cap = 1, buf = []\<rparr>,
      db = emptyLog,
      writer = Ranging\<rparr> = None"
  by code_simp

text \<open>
  C9, amended. When the pipeline has been started and its channel holds fewer events than
  its capacity (sixteen), \<open>WritePut\<close> and \<open>WriteDelete\<close> return with the event appended to the
  channel and nothing else changed: no call on the database is made, and the log is as it
  was, so the event is not durable at the return.
\<close>

theorem WritePut_WriteDelete_enqueue:
  assumes "events l = Some c" and "length (buf c) < cap c"
  shows "WritePut key val l =
           Some (l\<lparr>events := Some (c\<lparr>buf := buf c @
              [\<lparr>Sequence = 0, EventType = EventPut, Key = key, Value = val\<rparr>]\<rparr>)\<rparr>) \<and>
         WriteDelete key l =
           Some (l\<lparr>events := Some (c\<lparr>buf := buf c @
              [\<lparr>Sequence = 0, EventType = EventDelete, Key = key, Value = []\<rparr>]\<rparr>)\<rparr>)"
  using assms by (simp add: WritePut_def WriteDelete_def send_def)

theorem WritePut_WriteDelete_enqueue_witness:
  "events (Run (loggerOn emptyLog)) = Some (makeChan 16) \<and>
   length (buf (makeChan 16 :: Event chan)) < cap (makeChan 16 :: Event chan) \<and>
   WritePut ''a'' ''1'' (Run (loggerOn emptyLog)) =
     Some \<lparr>events = Some \<lparr>cap = 16,
              buf = [\<lparr>Sequence = 0, EventType = EventPut, Key = ''a'', Value = ''1''\<rparr>]\<rparr>,
           errors = Some \<lparr>cap = 1, buf = []\<rparr>, db = emptyLog, writer = Ranging\<rparr>"
  using WritePut_WriteDelete_enqueue [of "Run (loggerOn emptyLog)" "makeChan 16" "''a''" "''1''"]
  by (simp add: Run_def makeChan_def loggerOn_def)



section \<open>The writer goroutine and the error channel\<close>

lemma writerRun_stuck: "writerStep l = None \<Longrightarrow> writerRun n l = l"
  by (cases n) simp_all

lemma writerRun_add: "writerRun (m + n) l = writerRun n (writerRun m l)"
proof (induction m arbitrary: l)
  case 0
  show ?case by simp
next
  case (Suc m)
  show ?case
  proof (cases "writerStep l")
    case None
    then show ?thesis by (simp add: writerRun_stuck)
  next
    case (Some l')
    with Suc.IH [of l'] show ?thesis by simp
  qed
qed

lemma failingQueue_three_steps:
  "writerRun 3 failingQueue =
     \<lparr>events = Some \<lparr>cap = 16, buf = [\<lparr>Sequence = 0, EventType = EventPut, Key = ''c'', Value = ''3''\<rparr>]\<rparr>,
      errors = Some \<lparr>cap = 1, buf = [DriverError 1]\<rparr>,
      db = \<lparr>faults = [], relation = Some [], serial = 0,
             history = [ExecInsert EventPut ''a'' ''1'', ExecInsert EventPut ''b'' ''2'']\<rparr>,
      writer = Sending (DriverError 2)\<rparr>"
  by code_simp

text \<open>
  C8 as stated fails: with nobody receiving from \<open>Err()\<close>, the first failed INSERT fills the
  error channel and the second leaves the writer at its send. However many steps the writer
  is given after that, the third event stays in the channel and no INSERT is made for it.
\<close>

theorem writer_halts_on_second_failure:
  "\<forall>n. writerRun (3 + n) failingQueue =
     \<lparr>events = Some \<lparr>cap = 16, buf = [\<lparr>Sequence = 0, EventType = EventPut, Key = ''c'', Value = ''3''\<rparr>]\<rparr>,
      errors = Some \<lparr>cap = 1, buf = [DriverError 1]\<rparr>,
      db = \<lparr>faults = [], relation = Some [], serial = 0,
             history = [ExecInsert EventPut ''a'' ''1'', ExecInsert EventPut ''b'' ''2'']\<rparr>,
      writer = Sending (DriverError 2)\<rparr>"
proof
  fix n
  let ?l3 = "\<lparr>events = Some \<lparr>cap = 16, buf = [\<lparr>Sequence = 0, EventType = EventPut, Key = ''c'', Value = ''3''\<rparr>]\<rparr>,
      errors = Some \<lparr>cap = 1, buf = [DriverError 1]\<rparr>,
      db = \<lparr>faults = [], relation = Some [], serial = 0,
             history = [ExecInsert EventPut ''a'' ''1'', ExecInsert EventPut ''b'' ''2'']\<rparr>,
      writer = Sending (DriverError 2)\<rparr>"
  have stuck: "writerStep ?l3 = None"
    by (simp add: writerStep_def send_def)
  have "writerRun (3 + n) failingQueue = writerRun n (writerRun 3 failingQueue)"
    by (rule writerRun_add)
  also have "\<dots> = writerRun n ?l3" by (simp only: failingQueue_three_steps)
  also have "\<dots> = ?l3" using stuck by (rule writerRun_stuck)
  finally show "writerRun (3 + n) failingQueue = ?l3" .
qed

lemma execInsert_history: "history (snd (execInsert e d)) = history d @ [insertOf e]"
  by (auto simp: execInsert_def nextFault_def called_def insertOf_def split: list.splits option.splits)

lemma appendAll_history: "history (snd (appendAll q d)) = history d @ map insertOf q"
proof (induction q arbitrary: d)
  case Nil
  show ?case by simp
next
  case (Cons e q)
  obtain r d1 where ex: "execInsert e d = (r, d1)" by (cases "execInsert e d")
  from execInsert_history [of e d] ex have h: "history d1 = history d @ [insertOf e]" by simp
  show ?case
  proof (cases r)
    case None
    with ex Cons.IH [of d1] h show ?thesis by simp
  next
    case (Some err)
    obtain errs d2 where "appendAll q d1 = (errs, d2)" by (cases "appendAll q d1")
    with Some ex Cons.IH [of d1] h show ?thesis by simp
  qed
qed

lemma supervisedRun_add: "supervisedRun (m + n) s = supervisedRun n (supervisedRun m s)"
  by (induction m arbitrary: s) simp_all

lemma supervisedStep_idle:
  assumes "writer l = Ranging" and "events l = Some c" and "buf c = []"
    and "errors l = Some ec" and "buf ec = []"
  shows "supervisedStep (seen, l) = (seen, l)"
  using assms by (simp add: supervisedStep_def recvErr_def Err_def recv_def writerStep_def)

lemma supervisedRun_idle:
  assumes "writer l = Ranging" and "events l = Some c" and "buf c = []"
    and "errors l = Some ec" and "buf ec = []"
  shows "supervisedRun n (seen, l) = (seen, l)"
  by (induction n) (simp_all add: supervisedStep_idle [OF assms])

lemma supervisedRun_drains:
  assumes "writer l = Ranging" and "events l = Some c" and "buf c = q"
    and "errors l = Some ec" and "buf ec = []" and "0 < cap ec"
  shows "supervisedRun (3 * length q) (seen, l) =
           (seen @ fst (appendAll q (db l)),
            l\<lparr>events := Some (c\<lparr>buf := []\<rparr>), db := snd (appendAll q (db l))\<rparr>)"
  using assms
proof (induction q arbitrary: l c seen)
  case Nil
  then have "l\<lparr>events := Some (c\<lparr>buf := []\<rparr>), db := db l\<rparr> = l" by simp
  then show ?case by simp
next
  case (Cons e q)
  obtain r d1 where ex: "execInsert e (db l) = (r, d1)" by (cases "execInsert e (db l)")
  let ?c1 = "c\<lparr>buf := q\<rparr>"
  show ?case
  proof (cases r)
    case None
    let ?l1 = "l\<lparr>events := Some ?c1, db := d1\<rparr>"
    have s1: "supervisedStep (seen, l) = (seen, ?l1)"
      using Cons.prems ex None
      by (simp add: supervisedStep_def recvErr_def Err_def recv_def writerStep_def)
    have ih: "supervisedRun (3 * length q) (seen, ?l1) =
                (seen @ fst (appendAll q d1),
                 ?l1\<lparr>events := Some (?c1\<lparr>buf := []\<rparr>), db := snd (appendAll q d1)\<rparr>)"
      using Cons.IH [of ?l1 ?c1 seen] Cons.prems by simp
    let ?fin = "?l1\<lparr>events := Some (?c1\<lparr>buf := []\<rparr>), db := snd (appendAll q d1)\<rparr>"
    have idle: "supervisedRun 2 (seen @ fst (appendAll q d1), ?fin) = (seen @ fst (appendAll q d1), ?fin)"
      by (rule supervisedRun_idle [where c = "?c1\<lparr>buf := []\<rparr>" and ec = ec])
         (use Cons.prems in simp_all)
    have "supervisedRun (3 * length (e # q)) (seen, l) = supervisedRun (3 * length q + 2) (seen, ?l1)"
      using s1 by (simp add: numeral_3_eq_3)
    also have "\<dots> = supervisedRun 2 (supervisedRun (3 * length q) (seen, ?l1))"
      by (rule supervisedRun_add)
    also have "\<dots> = (seen @ fst (appendAll q d1), ?fin)" using ih idle by simp
    finally show ?thesis using ex None by simp
  next
    case (Some err)
    let ?l1 = "l\<lparr>events := Some ?c1, db := d1, writer := Sending err\<rparr>"
    let ?l2 = "l\<lparr>events := Some ?c1, db := d1, writer := Ranging, errors := Some (ec\<lparr>buf := [err]\<rparr>)\<rparr>"
    let ?l3 = "l\<lparr>events := Some ?c1, db := d1\<rparr>"
    have s1: "supervisedStep (seen, l) = (seen, ?l1)"
      using Cons.prems ex Some
      by (simp add: supervisedStep_def recvErr_def Err_def recv_def writerStep_def)
    have s2: "supervisedStep (seen, ?l1) = (seen, ?l2)"
      using Cons.prems
      by (simp add: supervisedStep_def recvErr_def Err_def recv_def writerStep_def send_def)
    have ec: "ec\<lparr>buf := []\<rparr> = ec" using Cons.prems by simp
    have s3: "supervisedStep (seen, ?l2) = (seen @ [err], ?l3)"
      using Cons.prems ec
      by (simp add: supervisedStep_def recvErr_def Err_def recv_def)
    have ih: "supervisedRun (3 * length q) (seen @ [err], ?l3) =
                (seen @ [err] @ fst (appendAll q d1),
                 ?l3\<lparr>events := Some (?c1\<lparr>buf := []\<rparr>), db := snd (appendAll q d1)\<rparr>)"
      using Cons.IH [of ?l3 ?c1 "seen @ [err]"] Cons.prems by simp
    have "supervisedRun (3 * length (e # q)) (seen, l) = supervisedRun (3 * length q) (seen @ [err], ?l3)"
      using s1 s2 s3 by (simp add: numeral_3_eq_3)
    then show ?thesis using ih ex Some by (simp split: prod.split)
  qed
qed

text \<open>
  C8, amended. A failed INSERT is sent on the error channel, which holds one error, and the
  writer goes on as long as the send finds room. Next to a supervisor that receives each
  error once it is in the channel, the writer takes every event of the channel in order and
  executes the INSERT for each, whatever the number of failures, and the supervisor
  receives the error of every failed INSERT in order. (A failure that finds the earlier
  error still in the channel stops the writer until that error is received.)
\<close>

theorem supervised_writer_attempts_all:
  assumes "writer l = Ranging" and "events l = Some c"
    and "errors l = Some ec" and "buf ec = []" and "0 < cap ec"
  shows "supervisedRun (3 * length (buf c)) ([], l) =
           (fst (appendAll (buf c) (db l)),
            l\<lparr>events := Some (c\<lparr>buf := []\<rparr>), db := snd (appendAll (buf c) (db l))\<rparr>) \<and>
         history (snd (appendAll (buf c) (db l))) = history (db l) @ map insertOf (buf c)"
  using supervisedRun_drains [OF assms(1) assms(2) refl assms(3) assms(4) assms(5), of "[]"]
  by (simp add: appendAll_history)

theorem supervised_writer_attempts_all_witness:
  "writer failingQueue = Ranging \<and> errors failingQueue = Some (makeChan 1) \<and>
   supervisedRun 9 ([], failingQueue) =
     ([DriverError 1, DriverError 2],
      \<lparr>events = Some \<lparr>cap = 16, buf = []\<rparr>, errors = Some \<lparr>cap = 1, buf = []\<rparr>,
        db = \<lparr>faults = [],
               relation = Some [\<lparr>col_sequence = 1, col_event_type = Some EventPut,
                                 col_key = Some ''c'', col_value = Some ''3''\<rparr>],
               serial = 1,
               history = [ExecInsert EventPut ''a'' ''1'', ExecInsert EventPut ''b'' ''2'',
                          ExecInsert EventPut ''c'' ''3'']\<rparr>,
        writer = Ranging\<rparr>)"
  using supervised_writer_attempts_all [of failingQueue
      "\<lparr>cap = 16,
        buf = [\<lparr>Sequence = 0, EventType = EventPut, Key = ''a'', Value = ''1''\<rparr>,
               \<lparr>Sequence = 0, EventType = EventPut, Key = ''b'', Value = ''2''\<rparr>,
               \<lparr>Sequence = 0, EventType = EventPut, Key = ''c'', Value = ''3''\<rparr>]\<rparr>" "makeChan 1"]
  by (simp add: failingQueue_def makeChan_def emptyLog_def execInsert_def nextFault_def called_def)

section \<open>The log of a served request sequence replays to the store\<close>

lemma healthy_start:
  assumes "faults d = []" and "relation d = Some []"
  shows "healthy [] \<lparr>store = Map.empty, logger = Some (Run (loggerOn d))\<rparr>"
  using assms by (simp add: healthy_def Run_def loggerOn_def makeChan_def)

lemma healthy_Put:
  assumes "healthy rs w" and "Put PostgresLogger key val w = Ret (err, w')"
  shows "healthy (rs @ [PutRequest key val]) w'"
proof -
  from assms(1) obtain l c rows evs where h:
    "logger w = Some l" "events l = Some c" "cap c = 16" "errors l = Some (makeChan 1)"
    "writer l = Ranging" "faults (db l) = []" "relation (db l) = Some rows"
    "map scanRow rows = map Inr evs"
    "map payload evs @ map payload (buf c) = map (payload \<circ> eventOf) rs"
    "sorted (map col_sequence rows)" "list_all (\<lambda>r. col_sequence r \<le> serial (db l)) rows"
    "store w = foldl specApply Map.empty rs"
    unfolding healthy_def by blast
  let ?e = "\<lparr>Sequence = 0, EventType = EventPut, Key = key, Value = val\<rparr>"
  let ?c = "c\<lparr>buf := buf c @ [?e]\<rparr>"
  let ?l = "l\<lparr>events := Some ?c\<rparr>"
  from assms(2) h(1) h(2) have w': "w' = \<lparr>store = (store w)(key \<mapsto> val), logger = Some ?l\<rparr>"
    by (auto simp: Put_def PostgresLogger_def WritePut_def send_def split: if_splits)
  have "map payload evs @ map payload (buf ?c) = map (payload \<circ> eventOf) (rs @ [PutRequest key val])"
    using h(9) by (simp add: eventOf_def)
  moreover have "store w' = foldl specApply Map.empty (rs @ [PutRequest key val])"
    using w' h(12) by simp
  ultimately show ?thesis
    unfolding healthy_def using w' h
    by (intro exI [of _ ?l] exI [of _ ?c] exI [of _ rows] exI [of _ evs]) simp
qed

lemma healthy_Delete:
  assumes "healthy rs w" and "Delete PostgresLogger key w = Ret (err, w')"
  shows "healthy (rs @ [DeleteRequest key]) w'"
proof -
  from assms(1) obtain l c rows evs where h:
    "logger w = Some l" "events l = Some c" "cap c = 16" "errors l = Some (makeChan 1)"
    "writer l = Ranging" "faults (db l) = []" "relation (db l) = Some rows"
    "map scanRow rows = map Inr evs"
    "map payload evs @ map payload (buf c) = map (payload \<circ> eventOf) rs"
    "sorted (map col_sequence rows)" "list_all (\<lambda>r. col_sequence r \<le> serial (db l)) rows"
    "store w = foldl specApply Map.empty rs"
    unfolding healthy_def by blast
  let ?e = "\<lparr>Sequence = 0, EventType = EventDelete, Key = key, Value = []\<rparr>"
  let ?c = "c\<lparr>buf := buf c @ [?e]\<rparr>"
  let ?l = "l\<lparr>events := Some ?c\<rparr>"
  from assms(2) h(1) h(2) have w': "w' = \<lparr>store = (store w)(key := None), logger = Some ?l\<rparr>"
    by (auto simp: Delete_def PostgresLogger_def WriteDelete_def send_def split: if_splits)
  have "map payload evs @ map payload (buf ?c) = map (payload \<circ> eventOf) (rs @ [DeleteRequest key])"
    using h(9) by (simp add: eventOf_def)
  moreover have "(store w)(key := None) = specApply (store w) (DeleteRequest key)"
    by (simp add: fun_upd_idem)
  then have "store w' = foldl specApply Map.empty (rs @ [DeleteRequest key])"
    using w' h(12) by simp
  ultimately show ?thesis
    unfolding healthy_def using w' h
    by (intro exI [of _ ?l] exI [of _ ?c] exI [of _ rows] exI [of _ evs]) simp
qed

lemma healthy_Writer:
  assumes "healthy rs w" and "step Writer w = Some w'"
  shows "healthy rs w'"
proof -
  from assms(1) obtain l c rows evs where h:
    "logger w = Some l" "events l = Some c" "cap c = 16" "errors l = Some (makeChan 1)"
    "writer l = Ranging" "faults (db l) = []" "relation (db l) = Some rows"
    "map scanRow rows = map Inr evs"
    "map payload evs @ map payload (buf c) = map (payload \<circ> eventOf) rs"
    "sorted (map col_sequence rows)" "list_all (\<lambda>r. col_sequence r \<le> serial (db l)) rows"
    "store w = foldl specApply Map.empty rs"
    unfolding healthy_def by blast
  from assms(2) h(1) h(2) h(5) obtain e q where q: "buf c = e # q"
    by (cases "buf c") (auto simp: writerStep_def recv_def)
  let ?n = "Suc (serial (db l))"
  let ?row = "\<lparr>col_sequence = ?n, col_event_type = Some (EventType e),
                col_key = Some (Key e), col_value = Some (Value e)\<rparr>"
  let ?d = "called (ExecInsert (EventType e) (Key e) (Value e))
              ((db l)\<lparr>relation := Some (rows @ [?row]), serial := ?n\<rparr>)"
  let ?c = "c\<lparr>buf := q\<rparr>"
  let ?l = "l\<lparr>events := Some ?c, db := ?d\<rparr>"
  let ?ev = "\<lparr>Sequence = of_nat ?n, EventType = EventType e, Key = Key e, Value = Value e\<rparr>"
  have ins: "execInsert e (db l) = (None, ?d)"
    using h(6) h(7) by (simp add: execInsert_def nextFault_def)
  from assms(2) h(1) h(2) h(5) q ins have w': "w' = w\<lparr>logger := Some ?l\<rparr>"
    by (auto simp: writerStep_def recv_def)
  have scan: "map scanRow (rows @ [?row]) = map Inr (evs @ [?ev])"
    using h(8) by (simp add: scanRow_def)
  have pay: "map payload (evs @ [?ev]) @ map payload (buf ?c) = map (payload \<circ> eventOf) rs"
    using h(9) q by (simp add: payload_def)
  have srt: "sorted (map col_sequence (rows @ [?row]))"
    using h(10) h(11) by (auto simp: sorted_append list_all_iff)
  have bnd: "list_all (\<lambda>r. col_sequence r \<le> serial ?d) (rows @ [?row])"
    using h(11) by (auto simp: list_all_iff called_def)
  show ?thesis
    unfolding healthy_def using w' h scan pay srt bnd
    by (intro exI [of _ ?l] exI [of _ ?c] exI [of _ "rows @ [?row]"] exI [of _ "evs @ [?ev]"])
       (simp add: called_def)
qed

lemma healthy_step:
  assumes "healthy rs w" and "step m w = Some w'"
  shows "healthy (rs @ requests [m]) w'"
proof (cases m)
  case (Handler r)
  show ?thesis
  proof (cases r)
    case (PutRequest key val)
    with Handler assms(2) obtain err where "Put PostgresLogger key val w = Ret (err, w')"
      by (auto split: outcome.splits)
    from healthy_Put [OF assms(1) this] Handler PutRequest show ?thesis by simp
  next
    case (DeleteRequest key)
    with Handler assms(2) obtain err where "Delete PostgresLogger key w = Ret (err, w')"
      by (auto split: outcome.splits)
    from healthy_Delete [OF assms(1) this] Handler DeleteRequest show ?thesis by simp
  qed
next
  case Writer
  with healthy_Writer [OF assms(1)] assms(2) show ?thesis by simp
next
  case Supervisor
  from assms(1) obtain l where "logger w = Some l" "errors l = Some (makeChan 1)"
    unfolding healthy_def by blast
  with Supervisor assms(2) show ?thesis
    by (simp add: recvErr_def Err_def recv_def makeChan_def)
qed

lemma requests_append: "requests (ms @ ms') = requests ms @ requests ms'"
  by (induction ms rule: requests.induct) simp_all

lemma healthy_moves:
  assumes "healthy rs w" and "moves sched w = Some w'"
  shows "healthy (rs @ requests sched) w'"
  using assms
proof (induction sched arbitrary: rs w)
  case Nil
  then show ?case by simp
next
  case (Cons m ms)
  from Cons.prems(2) obtain w1 where s: "step m w = Some w1" and r: "moves ms w1 = Some w'"
    by (auto split: option.splits)
  from healthy_step [OF Cons.prems(1) s] have "healthy (rs @ requests [m]) w1" .
  from Cons.IH [OF this r] have "healthy ((rs @ requests [m]) @ requests ms) w'" .
  moreover have "requests (m # ms) = requests [m] @ requests ms"
    using requests_append [of "[m]" ms] by simp
  ultimately show ?case by simp
qed




text \<open>
  Every finite sequence of requests has such a run on a fresh backend, one that ends with
  the channel drained: the run in which each event is written right after it is sent.
\<close>

lemma moves_append:
  "moves (ms @ ms') w = (case moves ms w of None \<Rightarrow> None | Some w' \<Rightarrow> moves ms' w')"
  by (induction ms arbitrary: w) (simp_all split: option.split)

lemma requests_alternate: "requests (alternate rs) = rs"
  by (induction rs) (simp_all add: alternate_def)

lemma healthy_serve_and_write:
  assumes "healthy rs w" and "logger w = Some l" and "events l = Some c" and "buf c = []"
  shows "\<exists>w' l' c'. moves [Handler r, Writer] w = Some w' \<and> logger w' = Some l' \<and>
                     events l' = Some c' \<and> buf c' = []"
proof -
  from assms obtain rows where h:
    "cap c = 16" "writer l = Ranging" "faults (db l) = []" "relation (db l) = Some rows"
    unfolding healthy_def by auto
  show ?thesis
    using assms(2-4) h
    by (cases r)
       (simp_all add: Put_def Delete_def PostgresLogger_def WritePut_def WriteDelete_def send_def
          writerStep_def recv_def execInsert_def nextFault_def)
qed

lemma every_request_sequence_runs:
  assumes "faults d = []" and "relation d = Some []"
  shows "\<exists>w l c. moves (alternate rs) \<lparr>store = Map.empty, logger = Some (Run (loggerOn d))\<rparr> = Some w \<and>
                 logger w = Some l \<and> events l = Some c \<and> buf c = []"
proof (induction rs rule: rev_induct)
  case Nil
  show ?case by (simp add: alternate_def Run_def loggerOn_def makeChan_def)
next
  case (snoc r rs)
  let ?w0 = "\<lparr>store = Map.empty, logger = Some (Run (loggerOn d))\<rparr>"
  from snoc obtain w l c where run: "moves (alternate rs) ?w0 = Some w"
    and l: "logger w = Some l" "events l = Some c" "buf c = []" by blast
  from healthy_moves [OF healthy_start [OF assms] run] have "healthy (requests (alternate rs)) w"
    by simp
  from healthy_serve_and_write [OF this l, of r] obtain w' l' c' where
    "moves [Handler r, Writer] w = Some w'" "logger w' = Some l'" "events l' = Some c'" "buf c' = []"
    by blast
  moreover have "alternate (rs @ [r]) = alternate rs @ [Handler r, Writer]"
    by (simp add: alternate_def)
  ultimately show ?case using run by (simp add: moves_append)
qed



end
